theory Spec2Isabelle
  imports Complex_Main "HOL-Library.Multiset" "HOL-Library.Sublist"
begin

section \<open>K-fold cross-validation "the explicit way"\<close>

text \<open>
  The notebook cell under study:
  \<^verbatim>\<open>
  K = 5
  train_r2 = []
  test_r2 = []
  est = LinearRegression()
  from random import shuffle
  inds = list(range(len(items)))
  shuffle(inds)
  for k in range(K):
      train = [x for (i, x) in enumerate(inds) if i % K != k]
      test = list(set(inds) - set(train))
      X_train, X_test = items.iloc[train], items.iloc[test]
      y_train, y_test = age.iloc[train], age.iloc[test]
      est.fit(X_train, y_train)
      _train_r2 = est.score(X_train, y_train)
      _test_r2 = est.score(X_test, y_test)
      train_r2.append(_train_r2)
      test_r2.append(_test_r2)
  \<close>
  The number of folds \<open>K\<close> (the literal 5 in the cell) and the number of rows
  \<open>n = len(items)\<close> are parameters of the model. Both are natural numbers; inside the
  loop \<open>k < K\<close> holds, so \<open>K\<close> is positive wherever \<open>i % K\<close> is evaluated and Python's
  \<open>%\<close> agrees with \<open>mod\<close> on naturals.
\<close>

subsection \<open>The index list and its shuffle\<close>

text \<open>
  \<open>random.shuffle\<close> belongs to the Python standard library and works on the generator
  shared by the whole process. It is a parameter of the model: a function from the
  generator's state and a list to the reordered list and the generator's next state.
\<close>

type_synonym 'r shuffler = "'r \<Rightarrow> nat list \<Rightarrow> nat list \<times> 'r"

text \<open>What the library promises of \<open>shuffle\<close>: the result is a reordering of its argument.\<close>

definition permuting :: "'r shuffler \<Rightarrow> bool" where
  "permuting sh = (\<forall>r xs. mset (fst (sh r xs)) = mset xs)"

text \<open>\<open>inds = list(range(len(items))); shuffle(inds)\<close>\<close>

definition shuffled_inds :: "'r shuffler \<Rightarrow> 'r \<Rightarrow> nat \<Rightarrow> nat list \<times> 'r" where
  "shuffled_inds sh r n = sh r [0..<n]"

text \<open>
  Two instances of the parameter. \<open>shuffle_off\<close> leaves the list in its natural order and
  the generator untouched (the spec's \<open>shuffle=False\<close>). \<open>fisher_yates\<close> is the exchange
  loop \<open>for i in reversed(range(1, len(x))): j = randbelow(i + 1); x[i], x[j] = x[j], x[i]\<close>
  with the generator's state made explicit as the list of numbers it will produce next
  (an exhausted list produces 0).
\<close>

definition shuffle_off :: "'r shuffler" where
  "shuffle_off r xs = (xs, r)"

fun randbelow :: "nat list \<Rightarrow> nat \<Rightarrow> nat \<times> nat list" where
  "randbelow [] b = (0, [])"
| "randbelow (d # ds) b = (d mod b, ds)"

fun fy_loop :: "nat \<Rightarrow> nat list \<Rightarrow> nat list \<Rightarrow> nat list \<times> nat list" where
  "fy_loop 0 r xs = (xs, r)"
| "fy_loop (Suc i) r xs =
     (case randbelow r (Suc (Suc i)) of
        (j, r') \<Rightarrow> fy_loop i r' (xs[Suc i := xs ! j, j := xs ! Suc i]))"

definition fisher_yates :: "(nat list) shuffler" where
  "fisher_yates r xs = fy_loop (length xs - 1) r xs"

subsection \<open>The folds\<close>

text \<open>\<open>train = [x for (i, x) in enumerate(inds) if i % K != k]\<close>\<close>

definition train_fold :: "nat \<Rightarrow> nat \<Rightarrow> nat list \<Rightarrow> nat list" where
  "train_fold K k inds = [x. (i, x) \<leftarrow> enumerate 0 inds, i mod K \<noteq> k]"

text \<open>
  \<open>set(inds) - set(train)\<close>. Python then calls \<open>list\<close> on this set; the order in which a
  set is iterated is not fixed by the language, so the conversion is a parameter
  \<open>lst\<close> of the model.
\<close>

definition test_set :: "nat \<Rightarrow> nat \<Rightarrow> nat list \<Rightarrow> nat set" where
  "test_set K k inds = set inds - set (train_fold K k inds)"

definition test_fold :: "(nat set \<Rightarrow> nat list) \<Rightarrow> nat \<Rightarrow> nat \<Rightarrow> nat list \<Rightarrow> nat list" where
  "test_fold lst K k inds = lst (test_set K k inds)"

text \<open>What \<open>list\<close> promises on a finite set: each element once, in some order.\<close>

definition lists_sets :: "(nat set \<Rightarrow> nat list) \<Rightarrow> bool" where
  "lists_sets lst = (\<forall>S. finite S \<longrightarrow> set (lst S) = S \<and> distinct (lst S))"

subsection \<open>The estimator and the scoring loop\<close>

text \<open>
  The estimator is the external object \<open>est\<close>: \<open>untrained\<close> is what the constructor
  \<open>LinearRegression()\<close> returns, \<open>fit\<close> changes the object and may raise, \<open>score\<close> reads
  it and may raise. The data frames \<open>items\<close> and \<open>age\<close> are fixed, so the rows handed to
  \<open>fit\<close> and \<open>score\<close> are given by their index list. An exception of type \<open>'x\<close> raised
  by either call leaves the loop and the cell.
\<close>

record ('e, 's, 'x) estimator =
  untrained :: 'e
  fit :: "'e \<Rightarrow> nat list \<Rightarrow> 'x + 'e"
  score :: "'e \<Rightarrow> nat list \<Rightarrow> 'x + 's"

record ('e, 's) cv_state =
  est :: 'e
  train_r2 :: "'s list"
  test_r2 :: "'s list"

text \<open>One pass through the body of \<open>for k in range(K)\<close>.\<close>

definition fold_body ::
  "('e, 's, 'x) estimator \<Rightarrow> (nat set \<Rightarrow> nat list) \<Rightarrow> nat \<Rightarrow> nat list \<Rightarrow> nat \<Rightarrow>
     ('e, 's) cv_state \<Rightarrow> 'x + ('e, 's) cv_state" where
  "fold_body E lst K inds k st =
     (let train = train_fold K k inds;
          test = test_fold lst K k inds
      in case fit E (est st) train of
           Inl x \<Rightarrow> Inl x
         | Inr e \<Rightarrow>
            (case score E e train of
               Inl x \<Rightarrow> Inl x
             | Inr tr \<Rightarrow>
                (case score E e test of
                   Inl x \<Rightarrow> Inl x
                 | Inr te \<Rightarrow>
                     Inr \<lparr>est = e, train_r2 = train_r2 st @ [tr], test_r2 = test_r2 st @ [te]\<rparr>)))"

text \<open>The loop over the fold numbers still to be visited.\<close>

fun cv_loop ::
  "('e, 's, 'x) estimator \<Rightarrow> (nat set \<Rightarrow> nat list) \<Rightarrow> nat \<Rightarrow> nat list \<Rightarrow> nat list \<Rightarrow>
     ('e, 's) cv_state \<Rightarrow> 'x + ('e, 's) cv_state" where
  "cv_loop E lst K inds [] st = Inr st"
| "cv_loop E lst K inds (k # ks) st =
     (case fold_body E lst K inds k st of
        Inl x \<Rightarrow> Inl x
      | Inr st' \<Rightarrow> cv_loop E lst K inds ks st')"

text \<open>The state when the loop is entered: empty score lists and the new estimator.\<close>

definition cv_init :: "('e, 's, 'x) estimator \<Rightarrow> ('e, 's) cv_state" where
  "cv_init E = \<lparr>est = untrained E, train_r2 = [], test_r2 = []\<rparr>"

text \<open>The loop on a given index list, and the whole cell from the generator's state.\<close>

definition kfold_scores ::
  "('e, 's, 'x) estimator \<Rightarrow> (nat set \<Rightarrow> nat list) \<Rightarrow> nat \<Rightarrow> nat list \<Rightarrow>
     'x + ('e, 's) cv_state" where
  "kfold_scores E lst K inds = cv_loop E lst K inds [0..<K] (cv_init E)"

definition kfold_cell ::
  "('e, 's, 'x) estimator \<Rightarrow> (nat set \<Rightarrow> nat list) \<Rightarrow> 'r shuffler \<Rightarrow> 'r \<Rightarrow> nat \<Rightarrow> nat \<Rightarrow>
     ('x + ('e, 's) cv_state) \<times> 'r" where
  "kfold_cell E lst sh r K n =
     (case shuffled_inds sh r n of (inds, r') \<Rightarrow> (kfold_scores E lst K inds, r'))"

text \<open>The sequence of (train, test) folds that one run of the cell visits.\<close>

definition kfold_folds ::
  "'r shuffler \<Rightarrow> 'r \<Rightarrow> nat \<Rightarrow> nat \<Rightarrow> (nat list \<times> nat set) list \<times> 'r" where
  "kfold_folds sh r K n =
     (case shuffled_inds sh r n of
        (inds, r') \<Rightarrow> (map (\<lambda>k. (train_fold K k inds, test_set K k inds)) [0..<K], r'))"

subsection \<open>Estimators to run the loop on\<close>

text \<open>
  \<open>counting_est\<close> counts the calls of \<open>fit\<close> it has seen and reports the count as its
  score. \<open>refit_est\<close> keeps nothing from earlier fits: its state is the training rows of
  the last \<open>fit\<close>, and its score is the number of scored rows among them. \<open>strict_est\<close>
  is \<open>refit_est\<close> raising on an empty row selection, as a least-squares fit does.
\<close>

definition counting_est :: "(nat, nat, unit) estimator" where
  "counting_est = \<lparr>untrained = 0, fit = (\<lambda>e d. Inr (Suc e)), score = (\<lambda>e d. Inr e)\<rparr>"

definition refit_est :: "(nat list, nat, unit) estimator" where
  "refit_est =
     \<lparr>untrained = [],
      fit = (\<lambda>e d. Inr d),
      score = (\<lambda>e d. Inr (length (filter (\<lambda>x. x \<in> set e) d)))\<rparr>"

definition strict_est :: "(nat list, nat, string) estimator" where
  "strict_est =
     \<lparr>untrained = [],
      fit = (\<lambda>e d. if d = [] then Inl ''ValueError'' else Inr d),
      score = (\<lambda>e d. if d = [] then Inl ''ValueError''
                      else Inr (length (filter (\<lambda>x. x \<in> set e) d)))\<rparr>"

text \<open>An estimator none of whose calls raises.\<close>

definition never_raises :: "('e, 's, 'x) estimator \<Rightarrow> bool" where
  "never_raises E = ((\<forall>e d. \<exists>e'. fit E e d = Inr e') \<and> (\<forall>e d. \<exists>s. score E e d = Inr s))"

text \<open>An estimator whose \<open>fit\<close> starts afresh: what it learns does not depend on the
  state of the object it is called on.\<close>

definition refits :: "('e, 's, 'x) estimator \<Rightarrow> bool" where
  "refits E = (\<forall>e d. fit E e d = fit E (untrained E) d)"

subsection \<open>The scoring loop as the specification words it\<close>

text \<open>
  Section 4.2, step 2b of the specification: "Produce a fresh estimator instance (via
  clone or re-instantiation). Never reuse a previously fitted instance across folds."
  \<open>spec_fold_body\<close> is the loop body with that step in front; the notebook's body has no
  such step.
\<close>

definition spec_fold_body ::
  "('e, 's, 'x) estimator \<Rightarrow> (nat set \<Rightarrow> nat list) \<Rightarrow> nat \<Rightarrow> nat list \<Rightarrow> nat \<Rightarrow>
     ('e, 's) cv_state \<Rightarrow> 'x + ('e, 's) cv_state" where
  "spec_fold_body E lst K inds k st = fold_body E lst K inds k (st\<lparr>est := untrained E\<rparr>)"

fun spec_cv_loop ::
  "('e, 's, 'x) estimator \<Rightarrow> (nat set \<Rightarrow> nat list) \<Rightarrow> nat \<Rightarrow> nat list \<Rightarrow> nat list \<Rightarrow>
     ('e, 's) cv_state \<Rightarrow> 'x + ('e, 's) cv_state" where
  "spec_cv_loop E lst K inds [] st = Inr st"
| "spec_cv_loop E lst K inds (k # ks) st =
     (case spec_fold_body E lst K inds k st of
        Inl x \<Rightarrow> Inl x
      | Inr st' \<Rightarrow> spec_cv_loop E lst K inds ks st')"

definition spec_kfold_scores ::
  "('e, 's, 'x) estimator \<Rightarrow> (nat set \<Rightarrow> nat list) \<Rightarrow> nat \<Rightarrow> nat list \<Rightarrow>
     'x + ('e, 's) cv_state" where
  "spec_kfold_scores E lst K inds = spec_cv_loop E lst K inds [0..<K] (cv_init E)"

subsection \<open>The learning curve\<close>

text \<open>
  The notebook calls \<open>learning_curve(est, facets, age, train_sizes=train_sizes, cv=5,
  shuffle=True)\<close> of scikit-learn; the function itself is not part of the repository.
\<close>

datatype 'x lc_error = InvalidArguments | EstimatorFailure nat nat 'x

text \<open>
  Modelled from the spec: the training subset of section 4.3, step 2b, which the absent
  \<open>learning_curve\<close> selects: "the first s_effective entries of train_j in its canonical
  order", with "s_effective = min(s, |train_j|)".
\<close>

definition lc_train_subset :: "nat \<Rightarrow> nat list \<Rightarrow> nat list" where
  "lc_train_subset s train = take (min s (length train)) train"

text \<open>
  Modelled from the spec: one entry of the absent \<open>learning_curve\<close>, section 4.3, steps
  2a to 2d, for size \<open>s\<close> and fold \<open>j\<close>: the test fold is that of the partition, a fresh
  estimator is trained on the selected subset and scored on it and on the test fold; a
  failure carries the fold and the size.
\<close>

definition lc_entry ::
  "('e, 's, 'x) estimator \<Rightarrow> (nat set \<Rightarrow> nat list) \<Rightarrow> nat \<Rightarrow> nat list \<Rightarrow> nat \<Rightarrow> nat \<Rightarrow>
     'x lc_error + 's \<times> 's" where
  "lc_entry E lst K inds s j =
     (let train = lc_train_subset s (train_fold K j inds);
          test = test_fold lst K j inds
      in case fit E (untrained E) train of
           Inl x \<Rightarrow> Inl (EstimatorFailure j s x)
         | Inr e \<Rightarrow>
            (case score E e train of
               Inl x \<Rightarrow> Inl (EstimatorFailure j s x)
             | Inr tr \<Rightarrow>
                (case score E e test of
                   Inl x \<Rightarrow> Inl (EstimatorFailure j s x)
                 | Inr te \<Rightarrow> Inr (tr, te))))"

text \<open>Running a fallible step over a list, stopping at the first failure.\<close>

fun collect :: "('a \<Rightarrow> 'x + 'b) \<Rightarrow> 'a list \<Rightarrow> 'x + 'b list" where
  "collect f [] = Inr []"
| "collect f (a # as) =
     (case f a of
        Inl x \<Rightarrow> Inl x
      | Inr b \<Rightarrow> (case collect f as of Inl x \<Rightarrow> Inl x | Inr bs \<Rightarrow> Inr (b # bs)))"

text \<open>
  Modelled from the spec: the inputs section 4.3 admits for the absent
  \<open>learning_curve\<close>: "n \<ge> k \<ge> 2" for the partition, and "sizes: non-empty ascending list
  of integers; each must be in [k, n]".
\<close>

definition lc_valid :: "nat \<Rightarrow> nat \<Rightarrow> nat list \<Rightarrow> bool" where
  "lc_valid K n sizes =
     (2 \<le> K \<and> K \<le> n \<and> sizes \<noteq> [] \<and> sorted sizes \<and> list_all (\<lambda>s. K \<le> s \<and> s \<le> n) sizes)"

text \<open>
  Modelled from the spec: the absent \<open>learning_curve\<close> of section 4.3 on the index order
  \<open>inds\<close> of the partition: invalid arguments fail before any fit; otherwise one row per
  requested size, in the order of \<open>sizes\<close>, and one column per fold; the sizes returned
  are the smallest effective size of each row.
\<close>

definition learning_curve ::
  "('e, 's, 'x) estimator \<Rightarrow> (nat set \<Rightarrow> nat list) \<Rightarrow> nat \<Rightarrow> nat list \<Rightarrow> nat list \<Rightarrow>
     'x lc_error + nat list \<times> 's list list \<times> 's list list" where
  "learning_curve E lst K inds sizes =
     (if \<not> lc_valid K (length inds) sizes then Inl InvalidArguments
      else case collect (\<lambda>s. collect (lc_entry E lst K inds s) [0..<K]) sizes of
             Inl x \<Rightarrow> Inl x
           | Inr rows \<Rightarrow>
               Inr (map (\<lambda>s. Min (set (map (\<lambda>j. min s (length (train_fold K j inds))) [0..<K])))
                      sizes,
                    map (map fst) rows,
                    map (map snd) rows))"

section \<open>Properties of the folds\<close>

subsection \<open>Training and test indices by position\<close>

lemma comp_nths: "[x. (i, x) \<leftarrow> enumerate n xs, P i] = nths xs {p. P (p + n)}"
  by (induction xs arbitrary: n) (auto simp: nths_Cons)

lemma train_fold_nths: "train_fold K k inds = nths inds {p. p mod K \<noteq> k}"
  by (simp add: train_fold_def comp_nths)

lemma set_train_fold:
  "set (train_fold K k inds) = {inds ! p | p. p < length inds \<and> p mod K \<noteq> k}"
  by (auto simp: train_fold_nths set_nths)

lemma train_fold_subset: "set (train_fold K k inds) \<subseteq> set inds"
  by (auto simp: set_train_fold)

lemma test_set_positions:
  assumes "distinct inds"
  shows "test_set K k inds = {inds ! p | p. p < length inds \<and> p mod K = k}"
proof -
  have "set inds = {inds ! p | p. p < length inds}"
    by (auto simp: in_set_conv_nth)
  moreover have "\<And>p q. p < length inds \<Longrightarrow> q < length inds \<Longrightarrow> inds ! p = inds ! q \<longleftrightarrow> p = q"
    using assms by (simp add: nth_eq_iff_index_eq)
  ultimately show ?thesis
    unfolding test_set_def set_train_fold by auto
qed

lemma test_set_subset: "test_set K k inds \<subseteq> set inds"
  by (auto simp: test_set_def)

lemma train_test_disjoint: "set (train_fold K k inds) \<inter> test_set K k inds = {}"
  by (auto simp: test_set_def)

lemma train_test_cover: "set (train_fold K k inds) \<union> test_set K k inds = set inds"
  using train_fold_subset[of K k inds] by (auto simp: test_set_def)

lemma tests_disjoint:
  assumes "distinct inds" "i \<noteq> j"
  shows "test_set K i inds \<inter> test_set K j inds = {}"
  using assms by (auto simp: test_set_positions nth_eq_iff_index_eq)

lemma tests_cover:
  assumes "distinct inds" "0 < K"
  shows "(\<Union>j<K. test_set K j inds) = set inds"
proof
  show "(\<Union>j<K. test_set K j inds) \<subseteq> set inds"
    using test_set_subset by blast
  show "set inds \<subseteq> (\<Union>j<K. test_set K j inds)"
  proof
    fix x assume "x \<in> set inds"
    then obtain p where p: "p < length inds" "inds ! p = x"
      by (auto simp: in_set_conv_nth)
    have "p mod K < K" using assms(2) by simp
    moreover have "x \<in> test_set K (p mod K) inds"
      using p assms(1) by (auto simp: test_set_positions)
    ultimately show "x \<in> (\<Union>j<K. test_set K j inds)" by blast
  qed
qed

lemma count_positions:
  assumes "j < K"
  shows "card {p. p < n \<and> p mod K = j} = n div K + (if j < n mod K then 1 else 0)"
proof (induction n)
  case 0
  then show ?case by simp
next
  case (Suc n)
  have fin: "finite {p. p < n \<and> p mod K = j}" by simp
  have split: "{p. p < Suc n \<and> p mod K = j} =
        (if n mod K = j then insert n {p. p < n \<and> p mod K = j} else {p. p < n \<and> p mod K = j})"
    by (auto simp: less_Suc_eq)
  have "card {p. p < Suc n \<and> p mod K = j} =
        card {p. p < n \<and> p mod K = j} + (if n mod K = j then 1 else 0)"
    unfolding split using fin by auto
  also have "\<dots> = n div K + (if j < n mod K then 1 else 0) + (if n mod K = j then 1 else 0)"
    by (simp add: Suc.IH)
  also have "\<dots> = Suc n div K + (if j < Suc n mod K then 1 else 0)"
    using assms by (auto simp: mod_Suc div_Suc)
  finally show ?case .
qed

lemma card_test_set:
  assumes "distinct inds" "j < K"
  shows "card (test_set K j inds) =
     length inds div K + (if j < length inds mod K then 1 else 0)"
proof -
  have "test_set K j inds = (\<lambda>p. inds ! p) ` {p. p < length inds \<and> p mod K = j}"
    using assms(1) by (auto simp: test_set_positions)
  moreover have "inj_on (\<lambda>p. inds ! p) {p. p < length inds \<and> p mod K = j}"
    using assms(1) by (auto simp: inj_on_def nth_eq_iff_index_eq)
  ultimately have "card (test_set K j inds) = card {p. p < length inds \<and> p mod K = j}"
    by (simp add: card_image)
  then show ?thesis using count_positions[OF assms(2)] by simp
qed

lemma floor_nat_div: "\<lfloor>real n / real K\<rfloor> = int (n div K)"
  by (simp add: floor_divide_of_nat_eq)

lemma ceiling_nat_div:
  assumes "0 < K"
  shows "\<lceil>real n / real K\<rceil> = int (n div K) + (if n mod K = 0 then 0 else 1)"
proof -
  let ?q = "n div K" and ?r = "n mod K"
  have "real n = real ?q * real K + real ?r"
    by (metis div_mult_mod_eq of_nat_add of_nat_mult)
  then have x: "real n / real K = real ?q + real ?r / real K"
    using assms by (simp add: field_simps)
  show ?thesis
  proof (cases "?r = 0")
    case True
    then show ?thesis using x by simp
  next
    case False
    have "?r < K" using assms by simp
    then have "0 < real ?r / real K" "real ?r / real K \<le> 1"
      using False assms by simp_all
    then have "of_int (int ?q) < real n / real K" "real n / real K \<le> of_int (int ?q) + 1"
      using x by simp_all
    then have "\<lceil>real n / real K\<rceil> = int ?q + 1"
      by (rule ceiling_eq)
    then show ?thesis using False by simp
  qed
qed


subsection \<open>The shuffle returns a reordering of the index list\<close>

lemma randbelow_less: "0 < b \<Longrightarrow> fst (randbelow r b) < b"
  by (cases r) simp_all

lemma mset_fy_loop: "i < length xs \<Longrightarrow> mset (fst (fy_loop i r xs)) = mset xs"
proof (induction i arbitrary: r xs)
  case 0
  then show ?case by simp
next
  case (Suc i)
  obtain j r' where jr: "randbelow r (Suc (Suc i)) = (j, r')"
    by (cases "randbelow r (Suc (Suc i))")
  have "j < Suc (Suc i)"
    using randbelow_less[of "Suc (Suc i)" r] jr by simp
  then have j: "j < length xs" using Suc.prems by simp
  let ?ys = "xs[Suc i := xs ! j, j := xs ! Suc i]"
  have "mset ?ys = mset xs"
    using Suc.prems j by (simp add: mset_swap)
  moreover have "mset (fst (fy_loop i r' ?ys)) = mset ?ys"
    using Suc.prems by (intro Suc.IH) simp
  ultimately show ?case using jr by simp
qed

lemma permuting_fisher_yates: "permuting fisher_yates"
  unfolding permuting_def fisher_yates_def
proof (intro allI)
  fix r :: "nat list" and xs :: "nat list"
  show "mset (fst (fy_loop (length xs - 1) r xs)) = mset xs"
  proof (cases xs)
    case Nil
    then show ?thesis by simp
  next
    case (Cons a as)
    then show ?thesis by (intro mset_fy_loop) simp
  qed
qed

lemma permuting_shuffle_off: "permuting shuffle_off"
  by (simp add: permuting_def shuffle_off_def)

lemma shuffled_inds_perm:
  assumes "permuting sh"
  shows "distinct (fst (shuffled_inds sh r n))"
    and "set (fst (shuffled_inds sh r n)) = {0..<n}"
    and "length (fst (shuffled_inds sh r n)) = n"
proof -
  have m: "mset (fst (shuffled_inds sh r n)) = mset [0..<n]"
    using assms by (simp add: permuting_def shuffled_inds_def)
  show "distinct (fst (shuffled_inds sh r n))"
    using mset_eq_imp_distinct_iff[OF m] by simp
  show "set (fst (shuffled_inds sh r n)) = {0..<n}"
    using mset_eq_setD[OF m] by simp
  show "length (fst (shuffled_inds sh r n)) = n"
    using mset_eq_length[OF m] by simp
qed

lemma kfold_folds_unfold:
  "kfold_folds sh r K n =
     (map (\<lambda>k. (train_fold K k (fst (shuffled_inds sh r n)), test_set K k (fst (shuffled_inds sh r n)))) [0..<K],
      snd (shuffled_inds sh r n))"
  by (simp add: kfold_folds_def split: prod.splits)

lemma lists_sets_sorted: "lists_sets sorted_list_of_set"
  by (simp add: lists_sets_def)

subsection \<open>Coverage and disjointness\<close>

text \<open>
  C1. For \<open>n \<ge> K \<ge> 2\<close> and any shuffle that reorders its argument, the \<open>K\<close> test folds
  that the loop builds are pairwise disjoint and their union is the whole index set
  \<open>{0..<n}\<close>; in every fold the training indices are exactly the complement of the test
  indices, so the two are disjoint and together give \<open>{0..<n}\<close>.
\<close>

theorem fold_partition:
  assumes "2 \<le> K" and "K \<le> n" and "permuting sh"
  shows "(\<Union>j<K. test_set K j (fst (shuffled_inds sh r n))) = {0..<n}
       \<and> (\<forall>i<K. \<forall>j<K. i \<noteq> j \<longrightarrow>
             test_set K i (fst (shuffled_inds sh r n)) \<inter> test_set K j (fst (shuffled_inds sh r n)) = {})
       \<and> (\<forall>j<K. set (train_fold K j (fst (shuffled_inds sh r n)))
                   = {0..<n} - test_set K j (fst (shuffled_inds sh r n))
              \<and> set (train_fold K j (fst (shuffled_inds sh r n)))
                   \<inter> test_set K j (fst (shuffled_inds sh r n)) = {}
              \<and> set (train_fold K j (fst (shuffled_inds sh r n)))
                   \<union> test_set K j (fst (shuffled_inds sh r n)) = {0..<n})"
proof -
  let ?inds = "fst (shuffled_inds sh r n)"
  note p = shuffled_inds_perm[OF assms(3), of r n]
  have K: "0 < K" using assms(1) by simp
  have cover: "(\<Union>j<K. test_set K j ?inds) = {0..<n}"
    using tests_cover[OF p(1) K] p(2) by simp
  have disj: "\<forall>i<K. \<forall>j<K. i \<noteq> j \<longrightarrow> test_set K i ?inds \<inter> test_set K j ?inds = {}"
    using tests_disjoint[OF p(1)] by blast
  have compl: "set (train_fold K j ?inds) = {0..<n} - test_set K j ?inds" for j
    using train_test_cover[of K j ?inds] train_test_disjoint[of K j ?inds] p(2) by blast
  have un: "set (train_fold K j ?inds) \<union> test_set K j ?inds = {0..<n}" for j
    using train_test_cover[of K j ?inds] p(2) by simp
  have split: "\<forall>j<K. set (train_fold K j ?inds) = {0..<n} - test_set K j ?inds
              \<and> set (train_fold K j ?inds) \<inter> test_set K j ?inds = {}
              \<and> set (train_fold K j ?inds) \<union> test_set K j ?inds = {0..<n}"
    by (intro allI impI conjI) (rule compl train_test_disjoint un)+
  from cover disj split show ?thesis by (intro conjI)
qed

text \<open>The statement at \<open>K = 2\<close>, \<open>n = 3\<close> and the generator state \<open>[1, 0]\<close>.\<close>

theorem fold_partition_witness:
  "(2::nat) \<le> 2 \<and> (2::nat) \<le> 3 \<and> permuting fisher_yates
   \<and> fst (shuffled_inds fisher_yates [1, 0] 3) = [2, 0, 1]
   \<and> (\<Union>j<2. test_set 2 j [2, 0, 1]) = {0..<3}
   \<and> test_set 2 0 [2, 0, 1] \<inter> test_set 2 1 [2, 0, 1] = {}
   \<and> set (train_fold 2 1 [2, 0, 1]) = {0..<3} - test_set 2 1 [2, 0, 1]
   \<and> set (train_fold 2 1 [2, 0, 1]) \<inter> test_set 2 1 [2, 0, 1] = {}
   \<and> set (train_fold 2 1 [2, 0, 1]) \<union> test_set 2 1 [2, 0, 1] = {0..<3}"
proof -
  have e: "fst (shuffled_inds fisher_yates [1, 0] 3) = [2, 0, 1]"
    by code_simp
  have h1: "(2::nat) \<le> 2" and h2: "(2::nat) \<le> 3" by simp_all
  note c = fold_partition[OF h1 h2 permuting_fisher_yates, of "[1, 0]", unfolded e]
  note cover = c[THEN conjunct1]
  have l0: "(0::nat) < 2" and l1: "(1::nat) < 2" and ne: "(0::nat) \<noteq> 1" by simp_all
  note disj = c[THEN conjunct2, THEN conjunct1, rule_format, OF l0 l1 ne]
  note split = c[THEN conjunct2, THEN conjunct2, rule_format, OF l1]
  show ?thesis
    by (rule h1 h2 permuting_fisher_yates e cover disj split conjI)+
qed

subsection \<open>The position-mod-K rule\<close>

text \<open>
  C4. With \<open>I\<close> the index list after the shuffle (any reordering of \<open>range(n)\<close>, the
  untouched list included), test fold \<open>j\<close> consists exactly of the entries \<open>I[p]\<close> whose
  position \<open>p\<close> is congruent to \<open>j\<close> modulo \<open>K\<close>, and the training fold holds the
  remaining indices.
\<close>

theorem position_mod_rule:
  assumes "permuting sh"
  shows "\<forall>j<K. test_set K j (fst (shuffled_inds sh r n))
             = {fst (shuffled_inds sh r n) ! p | p. p < n \<and> p mod K = j}
          \<and> set (train_fold K j (fst (shuffled_inds sh r n)))
             = set (fst (shuffled_inds sh r n)) - test_set K j (fst (shuffled_inds sh r n))"
proof (intro allI impI conjI)
  fix j
  let ?inds = "fst (shuffled_inds sh r n)"
  note p = shuffled_inds_perm[OF assms, of r n]
  show "test_set K j ?inds = {?inds ! p | p. p < n \<and> p mod K = j}"
    using test_set_positions[OF p(1), of K j] p(3) by simp
  show "set (train_fold K j ?inds) = set ?inds - test_set K j ?inds"
    using train_test_cover[of K j ?inds] train_test_disjoint[of K j ?inds] by blast
qed

text \<open>The statement at \<open>K = 2\<close>, \<open>n = 3\<close>, fold 0 and the generator state \<open>[1, 0]\<close>.\<close>

theorem position_mod_rule_witness:
  "permuting fisher_yates
   \<and> fst (shuffled_inds fisher_yates [1, 0] 3) = [2, 0, 1]
   \<and> test_set 2 0 [2, 0, 1] = {[2, 0, 1] ! p | p. p < 3 \<and> p mod 2 = 0}
   \<and> test_set 2 0 [2, 0, 1] = {2, 1}
   \<and> set (train_fold 2 0 [2, 0, 1]) = set [2, 0, 1] - test_set 2 0 [2, 0, 1]"
proof -
  have e: "fst (shuffled_inds fisher_yates [1, 0] 3) = [2, 0, 1]"
    by code_simp
  have v: "test_set 2 0 [2, 0, 1] = {2, 1}"
    by code_simp
  have l0: "(0::nat) < 2" by simp
  note c = position_mod_rule[OF permuting_fisher_yates, of 2 "[1, 0]" 3, unfolded e,
      rule_format, OF l0]
  show ?thesis
    by (rule permuting_fisher_yates e v c[THEN conjunct1] c[THEN conjunct2] conjI)+
qed

subsection \<open>Fold sizes\<close>

lemma sizes_floor_ceiling:
  assumes "0 < K"
  shows "int (n div K + (if j < n mod K then 1 else 0))
           \<in> {\<lfloor>real n / real K\<rfloor>, \<lceil>real n / real K\<rceil>}"
  using assms by (auto simp: floor_nat_div ceiling_nat_div)

text \<open>
  C5. For \<open>n \<ge> K \<ge> 2\<close> every test fold has \<open>\<lfloor>n/K\<rfloor>\<close> or \<open>\<lceil>n/K\<rceil>\<close> elements, and
  the sizes of two folds differ by at most 1. For \<open>n = 11\<close>, \<open>K = 5\<close> and the index list
  in natural order the sizes are \<open>[3, 2, 2, 2, 2]\<close> and the folds cover \<open>{0..10}\<close>.
\<close>

theorem fold_sizes_balanced:
  assumes "2 \<le> K" and "K \<le> n" and "permuting sh"
  shows "(\<forall>j<K. int (card (test_set K j (fst (shuffled_inds sh r n))))
                 \<in> {\<lfloor>real n / real K\<rfloor>, \<lceil>real n / real K\<rceil>})
       \<and> (\<forall>i<K. \<forall>j<K. card (test_set K i (fst (shuffled_inds sh r n)))
                 \<le> card (test_set K j (fst (shuffled_inds sh r n))) + 1)
       \<and> map (\<lambda>j. card (test_set 5 j (fst (shuffled_inds shuffle_off r' 11)))) [0..<5]
            = [3, 2, 2, 2, 2]
       \<and> (\<Union>j<5. test_set 5 j (fst (shuffled_inds shuffle_off r' 11))) = {0..10}"
proof -
  let ?inds = "fst (shuffled_inds sh r n)"
  note p = shuffled_inds_perm[OF assms(3), of r n]
  have K: "0 < K" using assms(1) by simp
  have c: "card (test_set K j ?inds) = n div K + (if j < n mod K then 1 else 0)"
    if "j < K" for j
    using card_test_set[OF p(1) that] p(3) by simp
  have a: "\<forall>j<K. int (card (test_set K j ?inds))
                 \<in> {\<lfloor>real n / real K\<rfloor>, \<lceil>real n / real K\<rceil>}"
    using c sizes_floor_ceiling[OF K] by simp
  have b: "\<forall>i<K. \<forall>j<K. card (test_set K i ?inds) \<le> card (test_set K j ?inds) + 1"
    using c by simp
  have nat: "fst (shuffled_inds shuffle_off r' 11) = [0..<11]"
    by (simp add: shuffled_inds_def shuffle_off_def)
  have s: "map (\<lambda>j. card (test_set 5 j [0..<11])) [0..<5] = [3, 2, 2, 2, 2]"
    by code_simp
  have u: "(\<Union>j<5. test_set 5 j [0..<11]) = {0..10}"
    using tests_cover[of "[0..<11]" 5] by auto
  show ?thesis unfolding nat
    using a b s u by (intro conjI)
qed

text \<open>The statement at \<open>K = 2\<close>, \<open>n = 3\<close>: folds of sizes 2 and 1.\<close>

theorem fold_sizes_balanced_witness:
  "(2::nat) \<le> 2 \<and> (2::nat) \<le> 3 \<and> permuting fisher_yates
   \<and> fst (shuffled_inds fisher_yates [1, 0] 3) = [2, 0, 1]
   \<and> int (card (test_set 2 0 [2, 0, 1])) \<in> {\<lfloor>real 3 / real 2\<rfloor>, \<lceil>real 3 / real 2\<rceil>}
   \<and> card (test_set 2 0 [2, 0, 1]) \<le> card (test_set 2 1 [2, 0, 1]) + 1
   \<and> card (test_set 2 0 [2, 0, 1]) = 2 \<and> card (test_set 2 1 [2, 0, 1]) = 1"
proof -
  have e: "fst (shuffled_inds fisher_yates [1, 0] 3) = [2, 0, 1]"
    by code_simp
  have v0: "card (test_set 2 0 [2, 0, 1]) = 2" by code_simp
  have v1: "card (test_set 2 1 [2, 0, 1]) = 1" by code_simp
  have h1: "(2::nat) \<le> 2" and h2: "(2::nat) \<le> 3" by simp_all
  have l0: "(0::nat) < 2" and l1: "(1::nat) < 2" by simp_all
  note c = fold_sizes_balanced[OF h1 h2 permuting_fisher_yates, of "[1, 0]", unfolded e]
  note a = c[THEN conjunct1, rule_format, OF l0]
  note b = c[THEN conjunct2, THEN conjunct1, rule_format, OF l0 l1]
  show ?thesis
    by (rule h1 h2 permuting_fisher_yates e a b v0 v1 conjI)+
qed

subsection \<open>The index list in natural order\<close>



subsection \<open>Order of the training indices\<close>

text \<open>
  C10. Inside the loop (\<open>j < K\<close>) the training list is the subsequence of \<open>inds\<close> at the
  positions not congruent to \<open>j\<close> modulo \<open>K\<close>, in the order of \<open>inds\<close>. The test list
  is whatever \<open>list\<close> makes of the set difference \<open>set(inds) - set(train)\<close>: its
  elements are fixed, each occurring once, and its order is that of the conversion.
\<close>

theorem train_order_preserved:
  assumes "j < K" and "lists_sets lst"
  shows "train_fold K j inds = nths inds {p. p mod K \<noteq> j}
   \<and> subseq (train_fold K j inds) inds
   \<and> test_fold lst K j inds = lst (set inds - set (train_fold K j inds))
   \<and> set (test_fold lst K j inds) = set inds - set (train_fold K j inds)
   \<and> distinct (test_fold lst K j inds)"
proof -
  have "subseq (nths inds {p. p mod K \<noteq> j}) inds"
    unfolding subseq_conv_nths by blast
  moreover have "finite (test_set K j inds)"
    by (simp add: test_set_def)
  then have "set (lst (test_set K j inds)) = test_set K j inds \<and> distinct (lst (test_set K j inds))"
    using assms(2) by (simp add: lists_sets_def)
  ultimately show ?thesis
    by (simp add: train_fold_nths test_fold_def test_set_def)
qed

text \<open>The statement at \<open>K = 2\<close>, fold 1, \<open>inds = [2, 0, 1]\<close> and a sorting conversion.\<close>

theorem train_order_preserved_witness:
  "(1::nat) < 2 \<and> lists_sets sorted_list_of_set
   \<and> train_fold 2 1 [2, 0, 1] = nths [2, 0, 1] {p. p mod 2 \<noteq> 1}
   \<and> train_fold 2 1 [2, 0, 1] = [2, 1]
   \<and> subseq (train_fold 2 1 [2, 0, 1]) [2, 0, 1]
   \<and> test_fold sorted_list_of_set 2 1 [2, 0, 1]
        = sorted_list_of_set (set [2, 0, 1] - set (train_fold 2 1 [2, 0, 1]))
   \<and> set (test_fold sorted_list_of_set 2 1 [2, 0, 1]) = set [2, 0, 1] - set (train_fold 2 1 [2, 0, 1])
   \<and> distinct (test_fold sorted_list_of_set 2 1 [2, 0, 1])"
proof -
  have l1: "(1::nat) < 2" by simp
  have v: "train_fold 2 1 [2, 0, 1] = [2, 1]" by code_simp
  note c = train_order_preserved[OF l1 lists_sets_sorted, of "[2, 0, 1]"]
  show ?thesis
    by (rule l1 lists_sets_sorted v c[THEN conjunct1] c[THEN conjunct2] conjI)+
qed

section \<open>Dependence on the random generator\<close>

text \<open>
  C3, as stated, fails: the cell has no seed and no generator of its own; \<open>shuffle\<close>
  draws from the generator of the process. Two runs with the same \<open>n = 3\<close> and
  \<open>K = 2\<close>, the second starting from the generator state \<open>[0, 0]\<close> that the first
  leaves behind, produce different fold sequences.
\<close>

theorem determinism_counterexample:
  "kfold_folds fisher_yates [1, 0, 0, 0] 2 3 = ([([0], {1, 2}), ([2, 1], {0})], [0, 0])
   \<and> kfold_folds fisher_yates [0, 0] 2 3 = ([([2], {0, 1}), ([1, 0], {2})], [])
   \<and> fst (kfold_folds fisher_yates [1, 0, 0, 0] 2 3) \<noteq> fst (kfold_folds fisher_yates [0, 0] 2 3)"
  by code_simp

text \<open>
  C3, amended. The fold sequence is a function of \<open>n\<close>, \<open>K\<close> and the order in which the
  shuffle returns the indices: two runs whose shuffles return the same order yield the
  same folds. Across different generator states the sizes of the test folds still agree,
  and with the index list left in natural order the folds do not depend on the generator
  at all.
\<close>

theorem folds_determined_by_order:
  assumes "permuting sh"
  shows "(fst (shuffled_inds sh r1 n) = fst (shuffled_inds sh r2 n)
            \<longrightarrow> fst (kfold_folds sh r1 K n) = fst (kfold_folds sh r2 K n))
       \<and> map (\<lambda>f. card (snd f)) (fst (kfold_folds sh r1 K n))
            = map (\<lambda>f. card (snd f)) (fst (kfold_folds sh r2 K n))
       \<and> fst (kfold_folds shuffle_off r1 K n) = fst (kfold_folds shuffle_off r2 K n)"
proof -
  note p1 = shuffled_inds_perm[OF assms, of r1 n]
  note p2 = shuffled_inds_perm[OF assms, of r2 n]
  have a: "fst (shuffled_inds sh r1 n) = fst (shuffled_inds sh r2 n)
            \<longrightarrow> fst (kfold_folds sh r1 K n) = fst (kfold_folds sh r2 K n)"
    by (simp add: kfold_folds_unfold)
  have "card (test_set K k (fst (shuffled_inds sh r1 n)))
          = card (test_set K k (fst (shuffled_inds sh r2 n)))" if "k < K" for k
    using card_test_set[OF p1(1) that] card_test_set[OF p2(1) that] p1(3) p2(3) by simp
  then have b: "map (\<lambda>f. card (snd f)) (fst (kfold_folds sh r1 K n))
            = map (\<lambda>f. card (snd f)) (fst (kfold_folds sh r2 K n))"
    by (simp add: kfold_folds_unfold comp_def)
  have c: "fst (kfold_folds shuffle_off r1 K n) = fst (kfold_folds shuffle_off r2 K n)"
    by (simp add: kfold_folds_unfold shuffled_inds_def shuffle_off_def)
  show ?thesis using a b c by (intro conjI)
qed

text \<open>The statement for two generator states that lead to the same order and to
  different orders.\<close>

theorem folds_determined_by_order_witness:
  "permuting fisher_yates
   \<and> fst (shuffled_inds fisher_yates [1, 0] 3) = fst (shuffled_inds fisher_yates [4, 2] 3)
   \<and> fst (kfold_folds fisher_yates [1, 0] 2 3) = fst (kfold_folds fisher_yates [4, 2] 2 3)
   \<and> map (\<lambda>f. card (snd f)) (fst (kfold_folds fisher_yates [1, 0] 2 3))
        = map (\<lambda>f. card (snd f)) (fst (kfold_folds fisher_yates [0, 0] 2 3))"
proof -
  have e: "fst (shuffled_inds fisher_yates [1, 0] 3) = fst (shuffled_inds fisher_yates [4, 2] 3)"
    by code_simp
  note c = folds_determined_by_order[OF permuting_fisher_yates, of "[1, 0]" 3 "[4, 2]" 2]
  note d = folds_determined_by_order[OF permuting_fisher_yates, of "[1, 0]" 3 "[0, 0]" 2]
  note a = c[THEN conjunct1, rule_format, OF e]
  note b = d[THEN conjunct2, THEN conjunct1]
  show ?thesis
    by (rule permuting_fisher_yates e a b conjI)+
qed

section \<open>The scoring loop\<close>

lemma fold_body_Inr:
  assumes "fold_body E lst K inds k st = Inr st'"
  shows "\<exists>e tr te. fit E (est st) (train_fold K k inds) = Inr e
           \<and> score E e (train_fold K k inds) = Inr tr
           \<and> score E e (test_fold lst K k inds) = Inr te
           \<and> st' = \<lparr>est = e, train_r2 = train_r2 st @ [tr], test_r2 = test_r2 st @ [te]\<rparr>"
  using assms by (auto simp: fold_body_def Let_def split: sum.splits)

lemma fold_body_Inl:
  assumes "fold_body E lst K inds k st = Inl x"
  shows "\<exists>e d. fit E e d = Inl x \<or> score E e d = Inl x"
  using assms by (auto simp: fold_body_def Let_def split: sum.splits)

lemma fold_body_total:
  assumes "never_raises E"
  shows "\<exists>st'. fold_body E lst K inds k st = Inr st'"
proof -
  obtain e where e: "fit E (est st) (train_fold K k inds) = Inr e"
    using assms unfolding never_raises_def by blast
  obtain tr where tr: "score E e (train_fold K k inds) = Inr tr"
    using assms unfolding never_raises_def by blast
  obtain te where te: "score E e (test_fold lst K k inds) = Inr te"
    using assms unfolding never_raises_def by blast
  show ?thesis by (simp add: fold_body_def e tr te)
qed

lemma cv_loop_total:
  assumes "never_raises E"
  shows "\<exists>st'. cv_loop E lst K inds ks st = Inr st'"
proof (induction ks arbitrary: st)
  case Nil
  then show ?case by simp
next
  case (Cons k ks)
  obtain st1 where "fold_body E lst K inds k st = Inr st1"
    using fold_body_total[OF assms] by blast
  then show ?case using Cons.IH[of st1] by simp
qed

lemma cv_loop_Inl:
  assumes "cv_loop E lst K inds ks st = Inl x"
  shows "ks \<noteq> [] \<and> (\<exists>e d. fit E e d = Inl x \<or> score E e d = Inl x)"
  using assms
proof (induction ks arbitrary: st)
  case Nil
  then show ?case by simp
next
  case (Cons k ks)
  show ?case
  proof (cases "fold_body E lst K inds k st")
    case (Inl y)
    then have "y = x" using Cons.prems by simp
    then show ?thesis using fold_body_Inl Inl by fastforce
  next
    case (Inr st1)
    then have "cv_loop E lst K inds ks st1 = Inl x" using Cons.prems by simp
    then show ?thesis using Cons.IH by blast
  qed
qed

lemma cv_loop_Inr:
  assumes "cv_loop E lst K inds ks st = Inr st'"
  shows "\<exists>trs tes. train_r2 st' = train_r2 st @ trs \<and> test_r2 st' = test_r2 st @ tes
           \<and> length trs = length ks \<and> length tes = length ks
           \<and> (\<forall>i<length ks. \<exists>e0 e. fit E e0 (train_fold K (ks ! i) inds) = Inr e
                   \<and> score E e (train_fold K (ks ! i) inds) = Inr (trs ! i)
                   \<and> score E e (test_fold lst K (ks ! i) inds) = Inr (tes ! i))"
  using assms
proof (induction ks arbitrary: st)
  case Nil
  then show ?case by simp
next
  case (Cons k ks)
  from Cons.prems obtain st1 where b: "fold_body E lst K inds k st = Inr st1"
    and l: "cv_loop E lst K inds ks st1 = Inr st'"
    by (auto split: sum.splits)
  from fold_body_Inr[OF b] obtain e tr te where
    f: "fit E (est st) (train_fold K k inds) = Inr e"
    and s1: "score E e (train_fold K k inds) = Inr tr"
    and s2: "score E e (test_fold lst K k inds) = Inr te"
    and st1: "st1 = \<lparr>est = e, train_r2 = train_r2 st @ [tr], test_r2 = test_r2 st @ [te]\<rparr>"
    by blast
  from Cons.IH[OF l] obtain trs tes where
    ih: "train_r2 st' = train_r2 st1 @ trs" "test_r2 st' = test_r2 st1 @ tes"
      "length trs = length ks" "length tes = length ks"
      "\<forall>i<length ks. \<exists>e0 e. fit E e0 (train_fold K (ks ! i) inds) = Inr e
                   \<and> score E e (train_fold K (ks ! i) inds) = Inr (trs ! i)
                   \<and> score E e (test_fold lst K (ks ! i) inds) = Inr (tes ! i)"
    by blast
  have each: "\<exists>e0 e. fit E e0 (train_fold K ((k # ks) ! i) inds) = Inr e
                   \<and> score E e (train_fold K ((k # ks) ! i) inds) = Inr ((tr # trs) ! i)
                   \<and> score E e (test_fold lst K ((k # ks) ! i) inds) = Inr ((te # tes) ! i)"
    if "i < length (k # ks)" for i
  proof (cases i)
    case 0
    then show ?thesis using f s1 s2 by auto
  next
    case (Suc i')
    then have "i' < length ks" using that by simp
    then show ?thesis using ih(5) Suc by simp
  qed
  have "train_r2 st' = train_r2 st @ (tr # trs)" "test_r2 st' = test_r2 st @ (te # tes)"
    using ih(1,2) st1 by simp_all
  moreover have "length (tr # trs) = length (k # ks)" "length (te # tes) = length (k # ks)"
    using ih(3,4) by simp_all
  ultimately show ?case using each by blast
qed

lemma kfold_scores_Inr:
  assumes "kfold_scores E lst K inds = Inr st"
  shows "length (train_r2 st) = K \<and> length (test_r2 st) = K
       \<and> (\<forall>j<K. \<exists>e0 e. fit E e0 (train_fold K j inds) = Inr e
                   \<and> score E e (train_fold K j inds) = Inr (train_r2 st ! j)
                   \<and> score E e (test_fold lst K j inds) = Inr (test_r2 st ! j))"
proof -
  from cv_loop_Inr[OF assms[unfolded kfold_scores_def]] obtain trs tes where
    r: "train_r2 st = train_r2 (cv_init E) @ trs" "test_r2 st = test_r2 (cv_init E) @ tes"
      "length trs = length [0..<K]" "length tes = length [0..<K]"
      "\<forall>i<length [0..<K]. \<exists>e0 e. fit E e0 (train_fold K ([0..<K] ! i) inds) = Inr e
                   \<and> score E e (train_fold K ([0..<K] ! i) inds) = Inr (trs ! i)
                   \<and> score E e (test_fold lst K ([0..<K] ! i) inds) = Inr (tes ! i)"
    by blast
  have t: "train_r2 st = trs" "test_r2 st = tes"
    using r(1,2) by (simp_all add: cv_init_def)
  show ?thesis using r(3,4,5) unfolding t by simp
qed

lemma cv_loop_append:
  "cv_loop E lst K inds (ks @ ks') st =
     (case cv_loop E lst K inds ks st of Inl x \<Rightarrow> Inl x | Inr st' \<Rightarrow> cv_loop E lst K inds ks' st')"
  by (induction ks arbitrary: st) (auto split: sum.splits)

lemma fold_body_refits:
  assumes "refits E"
  shows "fold_body E lst K inds k st = spec_fold_body E lst K inds k st"
proof -
  have "fit E (est st) d = fit E (untrained E) d" for d
    using assms unfolding refits_def by blast
  then show ?thesis
    by (simp add: spec_fold_body_def fold_body_def Let_def split: sum.splits)
qed

lemma cv_loop_refits:
  assumes "refits E"
  shows "cv_loop E lst K inds ks st = spec_cv_loop E lst K inds ks st"
  by (induction ks arbitrary: st) (simp_all add: fold_body_refits[OF assms] split: sum.splits)

lemma refits_refit_est: "refits refit_est"
  by (simp add: refits_def refit_est_def)

lemma never_raises_refit_est: "never_raises refit_est"
  by (simp add: never_raises_def refit_est_def)

lemma never_raises_counting_est: "never_raises counting_est"
  by (simp add: never_raises_def counting_est_def)

subsection \<open>One estimator for all folds\<close>

text \<open>
  C2, as stated, fails: \<open>est = LinearRegression()\<close> stands before the loop, and every fold
  calls \<open>fit\<close> on that one object. With an estimator that reports how many fits it has
  seen, fold 1 scores 2 where a fresh instance per fold would score 1.
\<close>

theorem fresh_estimator_counterexample:
  "kfold_scores counting_est sorted_list_of_set 2 [2, 0, 1]
     = Inr \<lparr>est = 2, train_r2 = [1, 2], test_r2 = [1, 2]\<rparr>
   \<and> spec_kfold_scores counting_est sorted_list_of_set 2 [2, 0, 1]
     = Inr \<lparr>est = 1, train_r2 = [1, 1], test_r2 = [1, 1]\<rparr>"
  by code_simp

text \<open>
  C2, amended. In fold \<open>j\<close> the loop calls \<open>fit\<close> on the estimator as the folds before
  \<open>j\<close> left it, and keeps the result for the next fold. When the estimator's \<open>fit\<close>
  does not depend on the state of the object it is called on, the loop returns exactly
  what the loop with a fresh instance per fold returns.
\<close>

theorem estimator_shared_across_folds:
  "(\<forall>j<K. \<forall>st st'. cv_loop E lst K inds [0..<j] (cv_init E) = Inr st
        \<longrightarrow> cv_loop E lst K inds [0..<Suc j] (cv_init E) = Inr st'
        \<longrightarrow> fit E (est st) (train_fold K j inds) = Inr (est st'))
   \<and> (refits E \<longrightarrow> kfold_scores E lst K inds = spec_kfold_scores E lst K inds)"
proof -
  have a: "fit E (est st) (train_fold K j inds) = Inr (est st')"
    if "cv_loop E lst K inds [0..<j] (cv_init E) = Inr st"
      and "cv_loop E lst K inds [0..<Suc j] (cv_init E) = Inr st'" for j st st'
  proof -
    have "cv_loop E lst K inds ([0..<j] @ [j]) (cv_init E) = Inr st'"
      using that(2) by simp
    then have "fold_body E lst K inds j st = Inr st'"
      unfolding cv_loop_append using that(1) by (simp split: sum.splits)
    from fold_body_Inr[OF this] show ?thesis by auto
  qed
  have b: "refits E \<longrightarrow> kfold_scores E lst K inds = spec_kfold_scores E lst K inds"
    by (simp add: kfold_scores_def spec_kfold_scores_def cv_loop_refits)
  from a b show ?thesis by blast
qed

text \<open>The statement at \<open>K = 2\<close>, fold 1, with the estimator that keeps only its last
  training rows.\<close>

theorem estimator_shared_across_folds_witness:
  "cv_loop refit_est sorted_list_of_set 2 [2, 0, 1] [0..<1] (cv_init refit_est)
      = Inr \<lparr>est = [0], train_r2 = [1], test_r2 = [0]\<rparr>
   \<and> cv_loop refit_est sorted_list_of_set 2 [2, 0, 1] [0..<Suc 1] (cv_init refit_est)
      = Inr \<lparr>est = [2, 1], train_r2 = [1, 2], test_r2 = [0, 0]\<rparr>
   \<and> fit refit_est [0] (train_fold 2 1 [2, 0, 1]) = Inr [2, 1]
   \<and> refits refit_est
   \<and> kfold_scores refit_est sorted_list_of_set 2 [2, 0, 1]
      = spec_kfold_scores refit_est sorted_list_of_set 2 [2, 0, 1]"
proof -
  have l1: "(1::nat) < 2" by simp
  have r1: "cv_loop refit_est sorted_list_of_set 2 [2, 0, 1] [0..<1] (cv_init refit_est)
      = Inr \<lparr>est = [0], train_r2 = [1], test_r2 = [0]\<rparr>"
    by code_simp
  have r2: "cv_loop refit_est sorted_list_of_set 2 [2, 0, 1] [0..<Suc 1] (cv_init refit_est)
      = Inr \<lparr>est = [2, 1], train_r2 = [1, 2], test_r2 = [0, 0]\<rparr>"
    by code_simp
  note c = estimator_shared_across_folds[of 2 refit_est sorted_list_of_set "[2, 0, 1]"]
  have f: "fit refit_est [0] (train_fold 2 1 [2, 0, 1]) = Inr [2, 1]"
    using c[THEN conjunct1, rule_format, OF l1 r1 r2] by simp
  note eq = c[THEN conjunct2, rule_format, OF refits_refit_est]
  show ?thesis
    by (rule r1 r2 f refits_refit_est eq conjI)+
qed

subsection \<open>No check of the arguments\<close>

lemma kfold_cell_scores:
  "fst (kfold_cell E lst sh r K n) = kfold_scores E lst K (fst (shuffled_inds sh r n))"
  by (simp add: kfold_cell_def split: prod.splits)

text \<open>
  C7, as stated, fails: the cell checks neither \<open>K\<close> nor \<open>n\<close>. With \<open>K = 1\<close> (and
  \<open>n = 3\<close>), with \<open>n = 2 < K = 5\<close> and with \<open>K = 0\<close> it runs to its end on an estimator
  that never raises; the estimator's final state counts the fits that were invoked.
\<close>

theorem no_validation_counterexample:
  "kfold_cell counting_est sorted_list_of_set fisher_yates [1, 0] 1 3
     = (Inr \<lparr>est = 1, train_r2 = [1], test_r2 = [1]\<rparr>, [])
   \<and> kfold_cell counting_est sorted_list_of_set fisher_yates [0] 5 2
     = (Inr \<lparr>est = 5, train_r2 = [1, 2, 3, 4, 5], test_r2 = [1, 2, 3, 4, 5]\<rparr>, [])
   \<and> kfold_cell counting_est sorted_list_of_set fisher_yates [0] 0 2
     = (Inr \<lparr>est = 0, train_r2 = [], test_r2 = []\<rparr>, [])"
  by code_simp

text \<open>
  C7, amended. For every \<open>n\<close> and \<open>K\<close>, also \<open>K < 2\<close> and \<open>n < K\<close>: with an estimator
  that never raises the cell returns \<open>K\<close> training and \<open>K\<close> test scores; when the cell
  fails, \<open>K\<close> is positive and the failure is one that the estimator's \<open>fit\<close> or \<open>score\<close>
  raised; and the first thing the loop does is the first fold's \<open>fit\<close>, whose failure is
  the cell's failure.
\<close>

theorem no_argument_check:
  "(never_raises E \<longrightarrow>
      (\<exists>st. fst (kfold_cell E lst sh r K n) = Inr st
            \<and> length (train_r2 st) = K \<and> length (test_r2 st) = K))
   \<and> (fst (kfold_cell E lst sh r K n) = Inl x \<longrightarrow>
        0 < K \<and> (\<exists>e d. fit E e d = Inl x \<or> score E e d = Inl x))
   \<and> (0 < K \<and> fit E (untrained E) (train_fold K 0 (fst (shuffled_inds sh r n))) = Inl x \<longrightarrow>
        fst (kfold_cell E lst sh r K n) = Inl x)"
proof -
  let ?inds = "fst (shuffled_inds sh r n)"
  have a: "\<exists>st. fst (kfold_cell E lst sh r K n) = Inr st
            \<and> length (train_r2 st) = K \<and> length (test_r2 st) = K" if nr: "never_raises E"
  proof -
    obtain st where st: "kfold_scores E lst K ?inds = Inr st"
      using cv_loop_total[OF nr] unfolding kfold_scores_def by blast
    then show ?thesis using kfold_scores_Inr[OF st] by (simp add: kfold_cell_scores)
  qed
  have b: "0 < K \<and> (\<exists>e d. fit E e d = Inl x \<or> score E e d = Inl x)"
    if "fst (kfold_cell E lst sh r K n) = Inl x"
  proof -
    have "cv_loop E lst K ?inds [0..<K] (cv_init E) = Inl x"
      using that by (simp add: kfold_cell_scores kfold_scores_def)
    from cv_loop_Inl[OF this] show ?thesis by simp
  qed
  have c: "fst (kfold_cell E lst sh r K n) = Inl x"
    if "0 < K \<and> fit E (untrained E) (train_fold K 0 ?inds) = Inl x"
  proof -
    from that have "[0..<K] = 0 # [1..<K]" by (simp add: upt_conv_Cons)
    moreover have "fold_body E lst K ?inds 0 (cv_init E) = Inl x"
      using that by (simp add: fold_body_def cv_init_def)
    ultimately show ?thesis by (simp add: kfold_cell_scores kfold_scores_def)
  qed
  from a b c show ?thesis by blast
qed

text \<open>The statement at \<open>K = 1\<close>, \<open>n = 3\<close>: for the counting estimator, and for the
  estimator that raises on the empty training set of the single fold.\<close>

theorem no_argument_check_witness:
  "never_raises counting_est
   \<and> fst (kfold_cell counting_est sorted_list_of_set fisher_yates [1, 0] 1 3)
       = Inr \<lparr>est = 1, train_r2 = [1], test_r2 = [1]\<rparr>
   \<and> length (train_r2 \<lparr>est = 1::nat, train_r2 = [1::nat], test_r2 = [1::nat]\<rparr>) = 1
   \<and> fst (kfold_cell strict_est sorted_list_of_set fisher_yates [1, 0] 1 3) = Inl ''ValueError''
   \<and> (0::nat) < 1
   \<and> (\<exists>e d. fit strict_est e d = Inl ''ValueError'' \<or> score strict_est e d = Inl ''ValueError'')
   \<and> fit strict_est (untrained strict_est)
         (train_fold 1 0 (fst (shuffled_inds fisher_yates [1, 0] 3))) = Inl ''ValueError''"
proof -
  have r1: "fst (kfold_cell counting_est sorted_list_of_set fisher_yates [1, 0] 1 3)
       = Inr \<lparr>est = 1, train_r2 = [1], test_r2 = [1]\<rparr>"
    by code_simp
  have f: "fit strict_est (untrained strict_est)
         (train_fold 1 0 (fst (shuffled_inds fisher_yates [1, 0] 3))) = Inl ''ValueError''"
    by code_simp
  have k: "(0::nat) < 1" by simp
  note t1 = no_argument_check[of counting_est sorted_list_of_set fisher_yates "[1, 0]" 1 3]
  from t1[THEN conjunct1, rule_format, OF never_raises_counting_est] r1
  have len: "length (train_r2 \<lparr>est = 1::nat, train_r2 = [1::nat], test_r2 = [1::nat]\<rparr>) = 1"
    by simp
  note t2 = no_argument_check[of strict_est sorted_list_of_set fisher_yates "[1, 0]" 1 3
      "''ValueError''"]
  note r2 = t2[THEN conjunct2, THEN conjunct2, rule_format, OF conjI[OF k f]]
  note ex = t2[THEN conjunct2, THEN conjunct1, rule_format, OF r2, THEN conjunct2]
  show ?thesis
    by (rule never_raises_counting_est r1 len r2 k ex f conjI)+
qed

section \<open>Shapes of the results\<close>

lemma collect_Inr:
  assumes "collect f xs = Inr ys"
  shows "length ys = length xs \<and> (\<forall>i<length xs. f (xs ! i) = Inr (ys ! i))"
  using assms
proof (induction xs arbitrary: ys)
  case Nil
  then show ?case by simp
next
  case (Cons a as)
  from Cons.prems obtain b bs where b: "f a = Inr b" and bs: "collect f as = Inr bs"
    and ys: "ys = b # bs"
    by (auto split: sum.splits)
  have "f ((a # as) ! i) = Inr (ys ! i)" if "i < length (a # as)" for i
    using that b Cons.IH[OF bs] ys by (cases i) simp_all
  then show ?case using Cons.IH[OF bs] ys by simp
qed

lemma collect_total:
  assumes "\<And>a. \<exists>b. f a = Inr b"
  shows "\<exists>ys. collect f xs = Inr ys"
proof (induction xs)
  case Nil
  then show ?case by simp
next
  case (Cons a as)
  obtain b where "f a = Inr b" using assms by blast
  then show ?case using Cons.IH by auto
qed

lemma lc_entry_Inr:
  assumes "lc_entry E lst K inds s j = Inr p"
  shows "\<exists>e. fit E (untrained E) (lc_train_subset s (train_fold K j inds)) = Inr e
           \<and> score E e (lc_train_subset s (train_fold K j inds)) = Inr (fst p)
           \<and> score E e (test_fold lst K j inds) = Inr (snd p)"
  using assms by (auto simp: lc_entry_def Let_def split: sum.splits)

lemma lc_entry_total:
  assumes "never_raises E"
  shows "\<exists>p. lc_entry E lst K inds s j = Inr p"
proof -
  obtain e where e: "fit E (untrained E) (lc_train_subset s (train_fold K j inds)) = Inr e"
    using assms unfolding never_raises_def by blast
  obtain tr where tr: "score E e (lc_train_subset s (train_fold K j inds)) = Inr tr"
    using assms unfolding never_raises_def by blast
  obtain te where te: "score E e (test_fold lst K j inds) = Inr te"
    using assms unfolding never_raises_def by blast
  show ?thesis by (simp add: lc_entry_def e tr te)
qed

lemma learning_curve_Inr:
  assumes "learning_curve E lst K inds sizes = Inr (so, trm, tem)"
  shows "length so = length sizes \<and> length trm = length sizes \<and> length tem = length sizes
       \<and> (\<forall>i<length sizes. length (trm ! i) = K \<and> length (tem ! i) = K
             \<and> (\<forall>j<K. \<exists>e.
                   fit E (untrained E) (lc_train_subset (sizes ! i) (train_fold K j inds)) = Inr e
                 \<and> score E e (lc_train_subset (sizes ! i) (train_fold K j inds)) = Inr (trm ! i ! j)
                 \<and> score E e (test_fold lst K j inds) = Inr (tem ! i ! j)))"
proof -
  from assms obtain rows where
    rows: "collect (\<lambda>s. collect (lc_entry E lst K inds s) [0..<K]) sizes = Inr rows"
    and so: "length so = length sizes"
    and trm: "trm = map (map fst) rows" and tem: "tem = map (map snd) rows"
    by (auto simp: learning_curve_def split: if_splits sum.splits)
  note r = collect_Inr[OF rows]
  have row: "length (trm ! i) = K \<and> length (tem ! i) = K
             \<and> (\<forall>j<K. \<exists>e.
                   fit E (untrained E) (lc_train_subset (sizes ! i) (train_fold K j inds)) = Inr e
                 \<and> score E e (lc_train_subset (sizes ! i) (train_fold K j inds)) = Inr (trm ! i ! j)
                 \<and> score E e (test_fold lst K j inds) = Inr (tem ! i ! j))"
    if i: "i < length sizes" for i
  proof -
    have ri: "collect (lc_entry E lst K inds (sizes ! i)) [0..<K] = Inr (rows ! i)"
      using r i by simp
    note c = collect_Inr[OF ri]
    have len: "length (rows ! i) = K" using c by simp
    have ent: "\<exists>e. fit E (untrained E) (lc_train_subset (sizes ! i) (train_fold K j inds)) = Inr e
                 \<and> score E e (lc_train_subset (sizes ! i) (train_fold K j inds)) = Inr (trm ! i ! j)
                 \<and> score E e (test_fold lst K j inds) = Inr (tem ! i ! j)" if j: "j < K" for j
    proof -
      have "lc_entry E lst K inds (sizes ! i) j = Inr (rows ! i ! j)"
        using c j by simp
      from lc_entry_Inr[OF this] show ?thesis
        using i j r len by (simp add: trm tem)
    qed
    show ?thesis using len ent i r by (simp add: trm tem)
  qed
  have lens: "length trm = length sizes" "length tem = length sizes"
    using r by (simp_all add: trm tem)
  from so lens row show ?thesis by blast
qed

lemma learning_curve_total:
  assumes "never_raises E" and "lc_valid K (length inds) sizes"
  shows "\<exists>res. learning_curve E lst K inds sizes = Inr res"
proof -
  have "\<exists>row. collect (lc_entry E lst K inds s) [0..<K] = Inr row" for s
    by (rule collect_total) (rule lc_entry_total[OF assms(1)])
  then obtain rows where
    "collect (\<lambda>s. collect (lc_entry E lst K inds s) [0..<K]) sizes = Inr rows"
    using collect_total[of "\<lambda>s. collect (lc_entry E lst K inds s) [0..<K]" sizes] by blast
  then show ?thesis using assms(2) by (simp add: learning_curve_def)
qed

text \<open>
  C8. When the scoring loop returns, each of its two score lists has exactly \<open>K\<close>
  entries, entry \<open>j\<close> being the score of the estimator fitted in fold \<open>j\<close> on that fold's
  training and test rows; it does return when the estimator never raises. When
  \<open>learning_curve\<close> returns, each of its two matrices has one row per requested size, in
  the order of \<open>sizes\<close>, and each row has \<open>K\<close> entries, entry \<open>j\<close> being the score for
  fold \<open>j\<close>; it does return on valid arguments when the estimator never raises.
\<close>

theorem result_shapes:
  "(kfold_scores E lst K inds = Inr st \<longrightarrow>
       length (train_r2 st) = K \<and> length (test_r2 st) = K
     \<and> (\<forall>j<K. \<exists>e0 e. fit E e0 (train_fold K j inds) = Inr e
                   \<and> score E e (train_fold K j inds) = Inr (train_r2 st ! j)
                   \<and> score E e (test_fold lst K j inds) = Inr (test_r2 st ! j)))
   \<and> (never_raises E \<longrightarrow> (\<exists>st. kfold_scores E lst K inds = Inr st))
   \<and> (learning_curve E lst K inds sizes = Inr (so, trm, tem) \<longrightarrow>
       length trm = length sizes \<and> length tem = length sizes
     \<and> (\<forall>i<length sizes. length (trm ! i) = K \<and> length (tem ! i) = K
           \<and> (\<forall>j<K. \<exists>e.
                   fit E (untrained E) (lc_train_subset (sizes ! i) (train_fold K j inds)) = Inr e
                 \<and> score E e (lc_train_subset (sizes ! i) (train_fold K j inds)) = Inr (trm ! i ! j)
                 \<and> score E e (test_fold lst K j inds) = Inr (tem ! i ! j))))
   \<and> (never_raises E \<and> lc_valid K (length inds) sizes \<longrightarrow>
        (\<exists>res. learning_curve E lst K inds sizes = Inr res))"
proof (intro conjI impI)
  assume "kfold_scores E lst K inds = Inr st"
  from kfold_scores_Inr[OF this]
  show "length (train_r2 st) = K" and "length (test_r2 st) = K"
    and "\<forall>j<K. \<exists>e0 e. fit E e0 (train_fold K j inds) = Inr e
                   \<and> score E e (train_fold K j inds) = Inr (train_r2 st ! j)
                   \<and> score E e (test_fold lst K j inds) = Inr (test_r2 st ! j)"
    by blast+
next
  assume "never_raises E"
  then show "\<exists>st. kfold_scores E lst K inds = Inr st"
    unfolding kfold_scores_def by (rule cv_loop_total)
next
  assume "learning_curve E lst K inds sizes = Inr (so, trm, tem)"
  from learning_curve_Inr[OF this]
  show "length trm = length sizes" and "length tem = length sizes"
    and "\<forall>i<length sizes. length (trm ! i) = K \<and> length (tem ! i) = K
           \<and> (\<forall>j<K. \<exists>e.
                   fit E (untrained E) (lc_train_subset (sizes ! i) (train_fold K j inds)) = Inr e
                 \<and> score E e (lc_train_subset (sizes ! i) (train_fold K j inds)) = Inr (trm ! i ! j)
                 \<and> score E e (test_fold lst K j inds) = Inr (tem ! i ! j))"
    by blast+
next
  assume "never_raises E \<and> lc_valid K (length inds) sizes"
  then show "\<exists>res. learning_curve E lst K inds sizes = Inr res"
    using learning_curve_total by blast
qed

lemma lc_valid_example: "lc_valid 2 (length [2, 0, 1, 3, 4 :: nat]) [2, 3]"
  by (simp add: lc_valid_def)

text \<open>The statement at \<open>K = 2\<close>, \<open>n = 5\<close> and the sizes \<open>[2, 3]\<close>.\<close>

theorem result_shapes_witness:
  "kfold_scores refit_est sorted_list_of_set 2 [2, 0, 1, 3, 4]
      = Inr \<lparr>est = [2, 1, 4], train_r2 = [2, 3], test_r2 = [0, 0]\<rparr>
   \<and> length (train_r2 \<lparr>est = [2, 1, 4 :: nat], train_r2 = [2, 3 :: nat], test_r2 = [0, 0 :: nat]\<rparr>) = 2
   \<and> length (test_r2 \<lparr>est = [2, 1, 4 :: nat], train_r2 = [2, 3 :: nat], test_r2 = [0, 0 :: nat]\<rparr>) = 2
   \<and> never_raises refit_est
   \<and> (\<exists>st. kfold_scores refit_est sorted_list_of_set 2 [2, 0, 1, 3, 4] = Inr st)
   \<and> learning_curve refit_est sorted_list_of_set 2 [2, 0, 1, 3, 4] [2, 3]
      = Inr ([2, 2], [[2, 2], [2, 3]], [[0, 0], [0, 0]])
   \<and> length [[2, 2], [2, 3 :: nat]] = length [2, 3 :: nat]
   \<and> length [[0, 0], [0, 0 :: nat]] = length [2, 3 :: nat]
   \<and> lc_valid 2 (length [2, 0, 1, 3, 4 :: nat]) [2, 3]
   \<and> (\<exists>res. learning_curve refit_est sorted_list_of_set 2 [2, 0, 1, 3, 4] [2, 3] = Inr res)"
proof -
  have r1: "kfold_scores refit_est sorted_list_of_set 2 [2, 0, 1, 3, 4]
      = Inr \<lparr>est = [2, 1, 4], train_r2 = [2, 3], test_r2 = [0, 0]\<rparr>"
    by code_simp
  have r2: "learning_curve refit_est sorted_list_of_set 2 [2, 0, 1, 3, 4] [2, 3]
      = Inr ([2, 2], [[2, 2], [2, 3]], [[0, 0], [0, 0]])"
    by code_simp
  note c = result_shapes[of refit_est sorted_list_of_set 2 "[2, 0, 1, 3, 4]"
      "\<lparr>est = [2, 1, 4], train_r2 = [2, 3], test_r2 = [0, 0]\<rparr>"
      "[2, 3]" "[2, 2]" "[[2, 2], [2, 3]]" "[[0, 0], [0, 0]]"]
  note a = c[THEN conjunct1, rule_format, OF r1]
  note b = c[THEN conjunct2, THEN conjunct1, rule_format, OF never_raises_refit_est]
  note d = c[THEN conjunct2, THEN conjunct2, THEN conjunct1, rule_format, OF r2]
  note e = c[THEN conjunct2, THEN conjunct2, THEN conjunct2, rule_format,
      OF conjI[OF never_raises_refit_est lc_valid_example]]
  show ?thesis
    by (rule r1 a[THEN conjunct1] a[THEN conjunct2, THEN conjunct1] never_raises_refit_est b r2
        d[THEN conjunct1] d[THEN conjunct2, THEN conjunct1] lc_valid_example e conjI)+
qed

section \<open>Nested training subsets of the learning curve\<close>

lemma prefix_take_take: "a \<le> b \<Longrightarrow> prefix (take a xs) (take b xs)"
proof -
  assume "a \<le> b"
  then have "take a xs = take a (take b xs)" by (simp add: min_def)
  then show ?thesis by (metis take_is_prefix)
qed

text \<open>
  C9. For sizes \<open>s1 < s2\<close> and every fold \<open>j\<close>, the training rows used at size \<open>s1\<close>
  are a prefix of those used at size \<open>s2\<close>, both being prefixes of the fold's training
  list of the effective lengths \<open>min s1 |train_j|\<close> and \<open>min s2 |train_j|\<close>; these are
  the rows on which the entry for that size and fold fits its estimator.
\<close>

theorem lc_prefix_monotone:
  assumes "s1 < s2"
  shows "prefix (lc_train_subset s1 (train_fold K j inds)) (lc_train_subset s2 (train_fold K j inds))
       \<and> prefix (lc_train_subset s2 (train_fold K j inds)) (train_fold K j inds)
       \<and> length (lc_train_subset s1 (train_fold K j inds)) = min s1 (length (train_fold K j inds))
       \<and> length (lc_train_subset s2 (train_fold K j inds)) = min s2 (length (train_fold K j inds))
       \<and> (\<forall>s p. lc_entry E lst K inds s j = Inr p \<longrightarrow>
             (\<exists>e. fit E (untrained E) (lc_train_subset s (train_fold K j inds)) = Inr e))"
proof -
  let ?t = "train_fold K j inds"
  have "min s1 (length ?t) \<le> min s2 (length ?t)" using assms by simp
  then have a: "prefix (lc_train_subset s1 ?t) (lc_train_subset s2 ?t)"
    unfolding lc_train_subset_def by (rule prefix_take_take)
  have b: "prefix (lc_train_subset s2 ?t) ?t"
    unfolding lc_train_subset_def by (rule take_is_prefix)
  have c: "length (lc_train_subset s ?t) = min s (length ?t)" for s
    by (simp add: lc_train_subset_def)
  have d: "\<forall>s p. lc_entry E lst K inds s j = Inr p \<longrightarrow>
             (\<exists>e. fit E (untrained E) (lc_train_subset s ?t) = Inr e)"
    using lc_entry_Inr by blast
  from a b c[of s1] c[of s2] d show ?thesis by (intro conjI)
qed

text \<open>The statement at sizes 2 and 3, \<open>K = 2\<close>, fold 1.\<close>

theorem lc_prefix_monotone_witness:
  "(2::nat) < 3
   \<and> lc_train_subset 2 (train_fold 2 1 [2, 0, 1, 3, 4]) = [2, 1]
   \<and> lc_train_subset 3 (train_fold 2 1 [2, 0, 1, 3, 4]) = [2, 1, 4]
   \<and> prefix [2, 1] [2, 1, 4 :: nat]
   \<and> lc_entry refit_est sorted_list_of_set 2 [2, 0, 1, 3, 4] 2 1 = Inr (2, 0)
   \<and> (\<exists>e. fit refit_est (untrained refit_est) [2, 1] = Inr e)"
proof -
  have h: "(2::nat) < 3" by simp
  have v1: "lc_train_subset 2 (train_fold 2 1 [2, 0, 1, 3, 4]) = [2, 1]" by code_simp
  have v2: "lc_train_subset 3 (train_fold 2 1 [2, 0, 1, 3, 4]) = [2, 1, 4]" by code_simp
  have en: "lc_entry refit_est sorted_list_of_set 2 [2, 0, 1, 3, 4] 2 1 = Inr (2, 0)"
    by code_simp
  note c = lc_prefix_monotone[OF h, of 2 1 "[2, 0, 1, 3, 4]" refit_est sorted_list_of_set]
  note a = c[THEN conjunct1, unfolded v1 v2]
  note d = c[THEN conjunct2, THEN conjunct2, THEN conjunct2, THEN conjunct2, rule_format,
      OF en, unfolded v1]
  show ?thesis
    by (rule h v1 v2 a en d conjI)+
qed

end
